theory Spec2Isabelle
  imports Complex_Main "HOL-Library.Word"
begin

section \<open>Numerical model\<close>

text \<open>
  The three scripts compute with Python floats (IEEE binary64) and Python integers.
  Inside \<open>f\<close>, \<open>slope\<close>, \<open>RK4\<close> and the Lorenz integration, floats are modelled by the
  real numbers and complex floats by \<^typ>\<open>complex\<close>: rounding, overflow to infinity and
  NaN are outside the model there. Loop counters and iteration counts are \<^typ>\<open>int\<close> or
  \<^typ>\<open>nat\<close>. Exceptions are values of \<open>py_error\<close>, returned on the left of a sum.

  The coordinates that \<open>calc_heights\<close> samples are computed in the arithmetic of the
  compiled function: an integer operand is a 64-bit word, whose operations wrap around,
  and a floating-point operation rounds its exact result to binary64. A result beyond
  the largest binary64 number, which is an infinity in the program, stays a rounded real
  here: infinities and NaN are not modelled.
\<close>

datatype py_error = ValueError | ZeroDivisionError | IndexError

subsection \<open>Rounding to binary64\<close>

text \<open>
  The nearest integer, with a tie going to the even neighbour.
\<close>

definition round_to_even :: "real \<Rightarrow> int" where
  "round_to_even x =
     (let n = \<lfloor>x\<rfloor>; r = x - real_of_int n in
      if r < 1 / 2 then n
      else if r > 1 / 2 then n + 1
      else if even n then n else n + 1)"

text \<open>
  The exponent of the spacing of binary64 numbers around \<open>x\<close>: 53 significant bits, and
  \<open>2\<^sup>-\<^sup>1\<^sup>0\<^sup>7\<^sup>4\<close> in the subnormal range.
\<close>

definition quantum_exp :: "real \<Rightarrow> int" where
  "quantum_exp x = max (\<lfloor>log 2 \<bar>x\<bar>\<rfloor> - 52) (- 1074)"

text \<open>Rounding to the nearest binary64 number, ties to even.\<close>

definition round64 :: "real \<Rightarrow> real" where
  "round64 x =
     (if x = 0 then 0
      else real_of_int (round_to_even (x / 2 powi quantum_exp x)) * 2 powi quantum_exp x)"

subsection \<open>Numbers of the compiled function\<close>

text \<open>
  An argument of a function compiled in \<open>nopython\<close> mode is an \<open>int64\<close> when the caller
  passes a Python integer and a \<open>float64\<close> when it passes a float. \<open>num_val\<close> is the
  number a value stands for; \<open>to_float\<close> is its conversion to \<open>float64\<close>, which rounds an
  integer of more than 53 bits.
\<close>

datatype num64 = IntV "64 word" | FloatV real


definition to_float :: "num64 \<Rightarrow> real" where
  "to_float v = (case v of IntV w \<Rightarrow> round64 (real_of_int (sint w)) | FloatV x \<Rightarrow> x)"

text \<open>
  \<open>-\<close>, \<open>*\<close> and \<open>+\<close> stay in \<open>int64\<close> on two integers and are \<open>float64\<close> operations
  otherwise; the true division \<open>/\<close> always converts both operands to \<open>float64\<close>.
\<close>

definition num_sub :: "num64 \<Rightarrow> num64 \<Rightarrow> num64" where
  "num_sub u v =
     (case (u, v) of
        (IntV x, IntV y) \<Rightarrow> IntV (x - y)
      | _ \<Rightarrow> FloatV (round64 (to_float u - to_float v)))"

definition num_mul :: "num64 \<Rightarrow> num64 \<Rightarrow> num64" where
  "num_mul u v =
     (case (u, v) of
        (IntV x, IntV y) \<Rightarrow> IntV (x * y)
      | _ \<Rightarrow> FloatV (round64 (to_float u * to_float v)))"

definition num_add :: "num64 \<Rightarrow> num64 \<Rightarrow> num64" where
  "num_add u v =
     (case (u, v) of
        (IntV x, IntV y) \<Rightarrow> IntV (x + y)
      | _ \<Rightarrow> FloatV (round64 (to_float u + to_float v)))"

definition num_truediv :: "num64 \<Rightarrow> num64 \<Rightarrow> num64" where
  "num_truediv u v = FloatV (round64 (to_float u / to_float v))"

section \<open>mandelbrot.py\<close>

subsection \<open>The escape-time function \<open>f\<close>\<close>

text \<open>
  \<^verbatim>\<open>
  def f(real, imag, max_iter=200, limit=1e6):
      z = complex(0,0)
      c = complex(real, imag)
      for i in range(1, max_iter):
          z = z*z + c
          if np.abs(z) > limit:
              return i
      return -1
  \<close>
  The loop over \<open>range(1, max_iter)\<close> is a recursion over the list of its indices,
  \<open>[1..max_iter - 1]\<close>, carrying \<open>z\<close>. The parameters \<open>real\<close> and \<open>imag\<close> are written
  \<open>re\<close> and \<open>im\<close>; the two defaults are passed explicitly.
\<close>

fun f_loop :: "complex \<Rightarrow> real \<Rightarrow> complex \<Rightarrow> int list \<Rightarrow> int" where
  "f_loop c limit z [] = - 1"
| "f_loop c limit z (i # is) =
     (let z' = z * z + c in
      if cmod z' > limit then i else f_loop c limit z' is)"

definition f :: "real \<Rightarrow> real \<Rightarrow> int \<Rightarrow> real \<Rightarrow> int" where
  "f re im max_iter limit =
     (let z = Complex 0 0; c = Complex re im in
      f_loop c limit z [1..max_iter - 1])"

text \<open>
  The number of times the loop body runs, that is, the number of applications of the
  quadratic map that are compared with the bound.
\<close>

fun T_f_loop :: "complex \<Rightarrow> real \<Rightarrow> complex \<Rightarrow> int list \<Rightarrow> nat" where
  "T_f_loop c limit z [] = 0"
| "T_f_loop c limit z (i # is) =
     (let z' = z * z + c in
      if cmod z' > limit then 1 else 1 + T_f_loop c limit z' is)"

definition T_f :: "real \<Rightarrow> real \<Rightarrow> int \<Rightarrow> real \<Rightarrow> nat" where
  "T_f re im max_iter limit =
     (let z = Complex 0 0; c = Complex re im in
      T_f_loop c limit z [1..max_iter - 1])"

text \<open>
  The orbit of the quadratic map as the specification words it:
  \<open>z\<^sub>0 = 0\<close> and \<open>z\<^sub>n\<^sub>+\<^sub>1 = z\<^sub>n\<^sup>2 + c\<close>.
\<close>

primrec orbit :: "complex \<Rightarrow> nat \<Rightarrow> complex" where
  "orbit c 0 = 0"
| "orbit c (Suc n) = (orbit c n)\<^sup>2 + c"

text \<open>
  The first index among \<open>1, \<dots>, n\<close> at which the orbit's magnitude exceeds the bound, or
  the sentinel \<open>-1\<close> when there is none.
\<close>

definition first_escape :: "complex \<Rightarrow> int \<Rightarrow> real \<Rightarrow> int" where
  "first_escape c n limit =
     (case List.find (\<lambda>i. cmod (orbit c (nat i)) > limit) [1..n] of
        Some i \<Rightarrow> i
      | None \<Rightarrow> - 1)"

text \<open>
  The escape time as the specification words it: the map is iterated up to the maximum
  iteration count, so the indices are \<open>1, \<dots>, max_iter\<close>.
\<close>

definition escape_time :: "complex \<Rightarrow> int \<Rightarrow> real \<Rightarrow> int" where
  "escape_time c max_iter limit = first_escape c max_iter limit"

text \<open>
  For a real parameter the orbit is real. \<open>orbit_lower\<close> and \<open>orbit_upper\<close> enclose it in
  fixed-point arithmetic: with \<open>C = c * S\<close> they bound \<open>S\<close> times the orbit from below and
  from above.
\<close>

primrec real_orbit :: "real \<Rightarrow> nat \<Rightarrow> real" where
  "real_orbit c 0 = 0"
| "real_orbit c (Suc n) = (real_orbit c n)\<^sup>2 + c"

primrec orbit_lower :: "int \<Rightarrow> int \<Rightarrow> nat \<Rightarrow> int" where
  "orbit_lower S C 0 = 0"
| "orbit_lower S C (Suc n) = (orbit_lower S C n)\<^sup>2 div S + C"

primrec orbit_upper :: "int \<Rightarrow> int \<Rightarrow> nat \<Rightarrow> int" where
  "orbit_upper S C 0 = 0"
| "orbit_upper S C (Suc n) = (orbit_upper S C n)\<^sup>2 div S + 1 + C"


subsection \<open>The height grid \<open>calc_heights\<close>\<close>

text \<open>
  \<^verbatim>\<open>
  def calc_heights(a, b, c, d, N):
      heights = np.zeros((N, N))
      for i in range(N):
          for j in range(N):
              x = a + i*(b-a)/N
              y = c + j*(d-c)/N
              iterations = f(x, y)
              if iterations > 0:
                  heights[j, i] = iterations
      return heights
  \<close>
  A two-dimensional array is the list of its rows. \<open>np.zeros\<close> raises \<open>ValueError\<close> for
  a negative dimension. The loop indices of \<open>range(N)\<close> are natural numbers; the division
  by \<open>N\<close> happens only inside the loops, where \<open>N > 0\<close>. The function is compiled in
  \<open>nopython\<close> mode and the script calls it with integer limits, so each of \<open>a\<close>, \<open>b\<close>,
  \<open>c\<close>, \<open>d\<close> is a \<open>num64\<close>.
\<close>

definition zeros2 :: "nat \<Rightarrow> nat \<Rightarrow> real list list" where
  "zeros2 rows cols = replicate rows (replicate cols 0)"

text \<open>
  The two coordinate assignments at the head of the loop body. The loop index and \<open>N\<close>
  are \<open>int64\<close>; the quotient is a \<open>float64\<close>, and so are \<open>x\<close> and \<open>y\<close>.
\<close>

definition sampled_point ::
  "num64 \<Rightarrow> num64 \<Rightarrow> num64 \<Rightarrow> num64 \<Rightarrow> int \<Rightarrow> nat \<Rightarrow> nat \<Rightarrow> real \<times> real" where
  "sampled_point a b c d N i j =
     (let x = num_add a
                (num_truediv (num_mul (IntV (of_nat i)) (num_sub b a)) (IntV (of_int N)));
          y = num_add c
                (num_truediv (num_mul (IntV (of_nat j)) (num_sub d c)) (IntV (of_int N)))
      in (to_float x, to_float y))"

text \<open>The loop body: the store \<open>heights[j, i] = iterations\<close> happens for a positive count only.\<close>

definition cell_update ::
  "num64 \<Rightarrow> num64 \<Rightarrow> num64 \<Rightarrow> num64 \<Rightarrow> int \<Rightarrow> nat \<Rightarrow> nat \<Rightarrow> real list list \<Rightarrow> real list list" where
  "cell_update a b c d N i j heights =
     (let (x, y) = sampled_point a b c d N i j;
          iterations = f x y 200 1000000
      in if iterations > 0
         then heights[j := (heights ! j)[i := real_of_int iterations]]
         else heights)"

definition calc_heights ::
  "num64 \<Rightarrow> num64 \<Rightarrow> num64 \<Rightarrow> num64 \<Rightarrow> int \<Rightarrow> py_error + real list list" where
  "calc_heights a b c d N =
     (if N < 0 then Inl ValueError
      else Inr (fold (\<lambda>i. fold (\<lambda>j. cell_update a b c d N i j) [0..<nat N])
                  [0..<nat N] (zeros2 (nat N) (nat N))))"

text \<open>
  The value a cell holds when \<open>calc_heights\<close> returns: the result of \<open>f\<close> at the
  sampled point when that result is positive, and \<open>0\<close> otherwise.
\<close>

definition cell_value :: "num64 \<Rightarrow> num64 \<Rightarrow> num64 \<Rightarrow> num64 \<Rightarrow> int \<Rightarrow> nat \<Rightarrow> nat \<Rightarrow> real" where
  "cell_value a b c d N i j =
     (let r = f (fst (sampled_point a b c d N i j)) (snd (sampled_point a b c d N i j))
                200 1000000
      in if r > 0 then real_of_int r else 0)"

text \<open>An array of shape \<open>(n, n)\<close>.\<close>

definition square_shape :: "nat \<Rightarrow> real list list \<Rightarrow> bool" where
  "square_shape n heights \<longleftrightarrow> map length heights = replicate n n"

text \<open>
  What one execution of the loop body leaves in the cell it addresses, given the cell's
  previous content.
\<close>

definition new_cell ::
  "num64 \<Rightarrow> num64 \<Rightarrow> num64 \<Rightarrow> num64 \<Rightarrow> int \<Rightarrow> nat \<Rightarrow> nat \<Rightarrow> real \<Rightarrow> real" where
  "new_cell a b c d N i j old =
     (let r = f (fst (sampled_point a b c d N i j)) (snd (sampled_point a b c d N i j))
                200 1000000
      in if r > 0 then real_of_int r else old)"

section \<open>double_pendulum.py\<close>

text \<open>
  The state vector is a numpy array of four floats: the two angles and the two momenta.
  It is modelled by a four-tuple with numpy's elementwise sum and scalar product.
\<close>

datatype vec4 = Vec4 (v0: real) (v1: real) (v2: real) (v3: real)

definition smult4 :: "real \<Rightarrow> vec4 \<Rightarrow> vec4" where
  "smult4 k v = Vec4 (k * v0 v) (k * v1 v) (k * v2 v) (k * v3 v)"

definition add4 :: "vec4 \<Rightarrow> vec4 \<Rightarrow> vec4" where
  "add4 u v = Vec4 (v0 u + v0 v) (v1 u + v1 v) (v2 u + v2 v) (v3 u + v3 v)"

text \<open>The module constants that \<open>slope\<close> and \<open>RK4\<close> read.\<close>

definition m1 :: real where "m1 = 0.1"
definition m2 :: real where "m2 = 0.1"
definition l1 :: real where "l1 = 0.3"
definition l2 :: real where "l2 = 0.3"
definition g :: real where "g = 9.8"
definition h :: real where "h = 0.001"

text \<open>Python's \<open>/\<close> raises \<open>ZeroDivisionError\<close> for a zero divisor.\<close>

definition py_div :: "real \<Rightarrow> real \<Rightarrow> py_error + real" where
  "py_div x y = (if y = 0 then Inl ZeroDivisionError else Inr (x / y))"

text \<open>Sequencing of computations that may raise.\<close>

definition bind_err :: "py_error + 'a \<Rightarrow> ('a \<Rightarrow> py_error + 'b) \<Rightarrow> py_error + 'b" where
  "bind_err r k = (case r of Inl e \<Rightarrow> Inl e | Inr x \<Rightarrow> k x)"

text \<open>
  \<^verbatim>\<open>
  def slope(y):
      theta1 = y[0]
      theta2 = y[1]
      p1 = y[2]
      p2 = y[3]
      A1 = (p1*p2*sin(theta1 - theta2))/(l1*l2*(m1+m2*sin(theta1 - theta2)**2))
      A2 = 1/(2*l1**2*l2**2*(m1+m2*sin(theta1-theta2)**2)**2)
           *(p1**2*m2*l2**2 - 2*p1*p2*m2*l1*l2*cos(theta1-theta2) + p2**2*(m1+m2)*l1**2)
           *sin(2*(theta1-theta2))
      theta_d1 = (p1*l2 - p2*l1*cos(theta1-theta2))/(l1**2*l2*(m1+m2*sin(theta1-theta2)**2))
      theta_d2 = (p2*(m1+m2)*l1 -p1*m2*l2*cos(theta1-theta2))
                 /(m2*l1*l2**2*(m1+m2*sin(theta1-theta2)**2))
      p1 = -(m1+m2)*g*l1*sin(theta1) - A1 + A2
      p2 = -m2*g*l2*sin(theta2) + A1 - A2
      return np.array([theta_d1, theta_d2, p1, p2])
  \<close>
  Each of the four divisions is a \<open>py_div\<close>; \<open>q\<close> names the quotient \<open>1/(\<dots>)\<close> that
  starts the product \<open>A2\<close>, and the reassigned \<open>p1\<close>, \<open>p2\<close> are \<open>p1'\<close>, \<open>p2'\<close>.
\<close>

definition slope :: "vec4 \<Rightarrow> py_error + vec4" where
  "slope y =
     (let theta1 = v0 y; theta2 = v1 y; p1 = v2 y; p2 = v3 y in
      bind_err (py_div (p1 * p2 * sin (theta1 - theta2))
                  (l1 * l2 * (m1 + m2 * (sin (theta1 - theta2))\<^sup>2))) (\<lambda>A1.
      bind_err (py_div 1
                  (2 * l1\<^sup>2 * l2\<^sup>2 * (m1 + m2 * (sin (theta1 - theta2))\<^sup>2)\<^sup>2)) (\<lambda>q.
      let A2 = q * (p1\<^sup>2 * m2 * l2\<^sup>2 - 2 * p1 * p2 * m2 * l1 * l2 * cos (theta1 - theta2)
                    + p2\<^sup>2 * (m1 + m2) * l1\<^sup>2)
                 * sin (2 * (theta1 - theta2)) in
      bind_err (py_div (p1 * l2 - p2 * l1 * cos (theta1 - theta2))
                  (l1\<^sup>2 * l2 * (m1 + m2 * (sin (theta1 - theta2))\<^sup>2))) (\<lambda>theta_d1.
      bind_err (py_div (p2 * (m1 + m2) * l1 - p1 * m2 * l2 * cos (theta1 - theta2))
                  (m2 * l1 * l2\<^sup>2 * (m1 + m2 * (sin (theta1 - theta2))\<^sup>2))) (\<lambda>theta_d2.
      let p1' = - (m1 + m2) * g * l1 * sin theta1 - A1 + A2;
          p2' = - m2 * g * l2 * sin theta2 + A1 - A2
      in Inr (Vec4 theta_d1 theta_d2 p1' p2'))))))"

text \<open>
  \<^verbatim>\<open>
  def RK4(y, steps):
      for _ in range(steps):
          y1 = h*slope(y)
          y2 = h*slope(y + 0.5*y1)
          y3 = h*slope(y + 0.5*y2)
          y4 = h*slope(y+y3)
          y += 1/6*(y1 + 2*y2 + 2*y3 + y4)
      return y
  \<close>
  \<open>RK4\<close> reads the module-level \<open>slope\<close> and \<open>h\<close>; \<open>RK4_with\<close> is the same code with the
  two as parameters, so that the integrator can be applied to another derivative
  function. The in-place update \<open>y += \<dots>\<close> overwrites the caller's array; the model
  passes the array's content in and returns its new content.
\<close>

definition RK4_body :: "(vec4 \<Rightarrow> py_error + vec4) \<Rightarrow> real \<Rightarrow> vec4 \<Rightarrow> py_error + vec4" where
  "RK4_body slope_fn step y =
     bind_err (slope_fn y) (\<lambda>s1. let y1 = smult4 step s1 in
     bind_err (slope_fn (add4 y (smult4 0.5 y1))) (\<lambda>s2. let y2 = smult4 step s2 in
     bind_err (slope_fn (add4 y (smult4 0.5 y2))) (\<lambda>s3. let y3 = smult4 step s3 in
     bind_err (slope_fn (add4 y y3)) (\<lambda>s4. let y4 = smult4 step s4 in
     Inr (add4 y (smult4 (1 / 6)
            (add4 (add4 (add4 y1 (smult4 2 y2)) (smult4 2 y3)) y4)))))))"

fun RK4_loop :: "(vec4 \<Rightarrow> py_error + vec4) \<Rightarrow> real \<Rightarrow> vec4 \<Rightarrow> nat \<Rightarrow> py_error + vec4" where
  "RK4_loop slope_fn step y 0 = Inr y"
| "RK4_loop slope_fn step y (Suc k) =
     bind_err (RK4_body slope_fn step y) (\<lambda>y'. RK4_loop slope_fn step y' k)"

definition RK4_with ::
  "(vec4 \<Rightarrow> py_error + vec4) \<Rightarrow> real \<Rightarrow> vec4 \<Rightarrow> int \<Rightarrow> py_error + vec4" where
  "RK4_with slope_fn step y steps = RK4_loop slope_fn step y (nat steps)"

definition RK4 :: "vec4 \<Rightarrow> int \<Rightarrow> py_error + vec4" where
  "RK4 y steps = RK4_with slope h y steps"

section \<open>lorenz.py\<close>

text \<open>
  The names \<open>f\<close>, \<open>h\<close>, \<open>tf\<close>, \<open>N\<close>, \<open>y\<close> and \<open>t\<close> of this script carry the suffix
  \<open>_lorenz\<close>. One-dimensional arrays are lists, with numpy's elementwise operations.
\<close>

definition sigma :: real where "sigma = 10"
definition beta :: real where "beta = 8 / 3"
definition rho :: real where "rho = 28"




definition f_lorenz :: "real \<Rightarrow> real list \<Rightarrow> real list" where
  "f_lorenz t u =
     [sigma * (u ! 1 - u ! 0),
      u ! 0 * (rho - u ! 2) - u ! 1,
      u ! 0 * u ! 1 - beta * u ! 2]"

definition smult :: "real \<Rightarrow> real list \<Rightarrow> real list" where
  "smult k v = map (\<lambda>x. k * x) v"

definition sdiv :: "real list \<Rightarrow> real \<Rightarrow> real list" where
  "sdiv v k = map (\<lambda>x. x / k) v"

definition vadd :: "real list \<Rightarrow> real list \<Rightarrow> real list" where
  "vadd u v = map2 (+) u v"

text \<open>
  The script's state: the array \<open>y\<close> of shape \<open>(3, N)\<close> as the list of its three rows,
  the array \<open>t\<close>, and the log of the column indices that were assigned in \<open>y\<close>, in the
  order of the assignments.
\<close>

record lorenz_state =
  y_lorenz :: "real list list"
  t_lorenz :: "real list"
  y_writes :: "nat list"

text \<open>The column read \<open>y[:, i]\<close> and the column assignment \<open>y[:, i] = v\<close>.\<close>

definition get_col :: "real list list \<Rightarrow> nat \<Rightarrow> real list" where
  "get_col arr i = map (\<lambda>row. row ! i) arr"

definition set_col :: "lorenz_state \<Rightarrow> nat \<Rightarrow> real list \<Rightarrow> lorenz_state" where
  "set_col s i v =
     s\<lparr>y_lorenz := map2 (\<lambda>row x. row[i := x]) (y_lorenz s) v,
       y_writes := y_writes s @ [i]\<rparr>"




section \<open>Properties of mandelbrot.py\<close>

subsection \<open>The escape-time function\<close>

lemma f_loop_find:
  "0 \<le> k \<Longrightarrow> f_loop c limit (orbit c (nat k)) [k + 1..m] =
     (case List.find (\<lambda>i. cmod (orbit c (nat i)) > limit) [k + 1..m] of
        Some i \<Rightarrow> i | None \<Rightarrow> - 1)"
proof (induction "nat (m - k)" arbitrary: k)
  case 0
  then have "[k + 1..m] = []" by simp
  then show ?case by simp
next
  case (Suc n)
  then have le: "k + 1 \<le> m" by linarith
  have up: "[k + 1..m] = (k + 1) # [k + 1 + 1..m]"
    using le by (simp add: upto_rec1)
  have orb: "orbit c (nat (k + 1)) = orbit c (nat k) * orbit c (nat k) + c"
    using Suc.prems by (simp add: nat_add_distrib power2_eq_square)
  have n: "n = nat (m - (k + 1))" using Suc.hyps(2) by linarith
  have IH: "f_loop c limit (orbit c (nat (k + 1))) [k + 1 + 1..m] =
     (case List.find (\<lambda>i. cmod (orbit c (nat i)) > limit) [k + 1 + 1..m] of
        Some i \<Rightarrow> i | None \<Rightarrow> - 1)"
    using Suc.hyps(1)[OF n] Suc.prems by simp
  show ?case
    unfolding up using IH orb by (simp add: Let_def)
qed

lemma f_first_escape:
  "f re im max_iter limit = first_escape (Complex re im) (max_iter - 1) limit"
  using f_loop_find[of 0 "Complex re im" limit "max_iter - 1"]
  by (simp add: f_def first_escape_def Let_def zero_complex.code)

lemma f_loop_range: "f_loop c limit z is = - 1 \<or> f_loop c limit z is \<in> set is"
  by (induction "is" arbitrary: z) (auto simp: Let_def)

lemma T_f_loop_le: "T_f_loop c limit z is \<le> length is"
  by (induction "is" arbitrary: z) (auto simp: Let_def)

lemma f_loop_zero: "0 \<le> limit \<Longrightarrow> f_loop 0 limit 0 is = - 1"
  by (induction "is") (auto simp: Let_def)

lemma f_range_gen:
  "f re im max_iter limit = - 1 \<or>
   (1 \<le> f re im max_iter limit \<and> f re im max_iter limit \<le> max_iter - 1)"
  using f_loop_range[of "Complex re im" limit "Complex 0 0" "[1..max_iter - 1]"]
  by (auto simp: f_def Let_def)

lemma f_zero: "f 0 0 200 1000000 = - 1"
  by (simp add: f_def Let_def f_loop_zero zero_complex.code[symmetric])

lemma f_ten: "f 10 0 200 1000000 = 4"
proof -
  have "[1..199::int] = 1 # 2 # 3 # 4 # [5..199]"
    by (simp add: upto_rec1)
  then show ?thesis
    by (simp add: f_def Let_def cmod_def)
qed

lemma orbit_real: "orbit (Complex c 0) n = Complex (real_orbit c n) 0"
  by (induction n) (simp_all add: complex_eq_iff power2_eq_square)

lemma real_orbit_nonneg: "0 \<le> c \<Longrightarrow> 0 \<le> real_orbit c n"
  by (induction n) simp_all

lemma real_orbit_step_mono:
  assumes "1 / 4 \<le> c"
  shows "real_orbit c n \<le> real_orbit c (Suc n)"
proof -
  have "0 \<le> (real_orbit c n - 1 / 2)\<^sup>2" by simp
  then have "0 \<le> (real_orbit c n)\<^sup>2 - real_orbit c n + 1 / 4"
    by (simp add: power2_eq_square algebra_simps)
  with assms show ?thesis by simp
qed

lemma real_orbit_mono: "1 / 4 \<le> c \<Longrightarrow> m \<le> n \<Longrightarrow> real_orbit c m \<le> real_orbit c n"
  by (rule lift_Suc_mono_le) (simp_all add: real_orbit_step_mono del: real_orbit.simps)

lemma orbit_enclosure:
  assumes "0 < S" "0 \<le> C" "real_of_int C = c * real_of_int S"
  shows "0 \<le> orbit_lower S C n \<and>
         real_of_int (orbit_lower S C n) \<le> real_orbit c n * real_of_int S \<and>
         real_orbit c n * real_of_int S \<le> real_of_int (orbit_upper S C n)"
proof (induction n)
  case 0
  show ?case by simp
next
  case (Suc n)
  let ?L = "orbit_lower S C n" and ?U = "orbit_upper S C n" and ?r = "real_orbit c n"
  have S: "0 < real_of_int S" using assms(1) by simp
  have c0: "0 \<le> c"
  proof -
    have "0 \<le> c * real_of_int S" using assms(2,3) by (metis of_int_0_le_iff)
    then show ?thesis using S by (simp add: zero_le_mult_iff)
  qed
  have r0: "0 \<le> ?r * real_of_int S"
    using real_orbit_nonneg[OF c0, of n] S by simp
  from Suc have L0: "0 \<le> ?L" and L: "real_of_int ?L \<le> ?r * real_of_int S"
    and U: "?r * real_of_int S \<le> real_of_int ?U" by simp_all
  have sqL: "(real_of_int ?L)\<^sup>2 \<le> (?r * real_of_int S)\<^sup>2"
    using L0 L by (intro power_mono) simp_all
  have sqU: "(?r * real_of_int S)\<^sup>2 \<le> (real_of_int ?U)\<^sup>2"
    using r0 U by (intro power_mono) simp_all
  have lo: "real_of_int (?L\<^sup>2 div S) \<le> ?r\<^sup>2 * real_of_int S"
  proof -
    have "real_of_int (?L\<^sup>2 div S) \<le> real_of_int (?L\<^sup>2) / real_of_int S"
      by (rule real_of_int_div4)
    also have "\<dots> \<le> (?r * real_of_int S)\<^sup>2 / real_of_int S"
      using sqL S by (simp add: divide_right_mono)
    also have "\<dots> = ?r\<^sup>2 * real_of_int S"
      using S by (simp add: power2_eq_square)
    finally show ?thesis .
  qed
  have hi: "?r\<^sup>2 * real_of_int S \<le> real_of_int (?U\<^sup>2 div S + 1)"
  proof -
    have "?r\<^sup>2 * real_of_int S = (?r * real_of_int S)\<^sup>2 / real_of_int S"
      using S by (simp add: power2_eq_square)
    also have "\<dots> \<le> real_of_int (?U\<^sup>2) / real_of_int S"
      using sqU S by (simp add: divide_right_mono)
    also have "\<dots> \<le> real_of_int (?U\<^sup>2 div S + 1)"
      using real_of_int_div3[of "?U\<^sup>2" S] by simp
    finally show ?thesis .
  qed
  have nn: "0 \<le> ?L\<^sup>2 div S"
    using assms(1) by (simp add: pos_imp_zdiv_nonneg_iff)
  show ?case
    using lo hi nn assms(2,3) by (simp add: algebra_simps)
qed

lemma orbit_lower_200: "10 ^ 6 * 10 ^ 12 < orbit_lower (10 ^ 12) 250252000000 200"
  by code_simp

lemma orbit_upper_199: "orbit_upper (10 ^ 12) 250252000000 199 \<le> 10 ^ 6 * 10 ^ 12"
  by code_simp

lemma real_orbit_bounds:
  assumes "c = 250252 / 1000000"
  shows "real_orbit c 199 \<le> 1000000" "1000000 < real_orbit c 200"
proof -
  have S: "(0::int) < 10 ^ 12" and C: "(0::int) \<le> 250252000000"
    and cS: "real_of_int 250252000000 = c * real_of_int (10 ^ 12)"
    by (simp_all add: assms)
  note enc = orbit_enclosure[OF S C cS]
  have "real_orbit c 199 * real_of_int (10 ^ 12) \<le> real_of_int (10 ^ 6 * 10 ^ 12)"
    using enc[of 199] orbit_upper_199 by (meson of_int_le_iff order_trans)
  then show "real_orbit c 199 \<le> 1000000" by simp
  have "real_of_int (10 ^ 6 * 10 ^ 12) < real_orbit c 200 * real_of_int (10 ^ 12)"
    using enc[of 200] orbit_lower_200 by (meson of_int_less_iff less_le_trans)
  then show "1000000 < real_orbit c 200" by simp
qed

lemma find_append_None:
  "List.find P xs = None \<Longrightarrow> List.find P (xs @ ys) = List.find P ys"
  by (induction xs) (auto split: if_splits)

lemma first_escape_None:
  assumes "\<forall>i. 1 \<le> i \<and> i \<le> n \<longrightarrow> cmod (orbit c (nat i)) \<le> limit"
  shows "first_escape c n limit = - 1"
proof -
  have "List.find (\<lambda>i. cmod (orbit c (nat i)) > limit) [1..n] = None"
    using assms by (simp add: find_None_iff not_less)
  then show ?thesis by (simp add: first_escape_def)
qed

lemma first_escape_last:
  assumes "0 \<le> n" "first_escape c n limit = - 1" "cmod (orbit c (nat (n + 1))) > limit"
  shows "first_escape c (n + 1) limit = n + 1"
proof -
  have none: "List.find (\<lambda>i. cmod (orbit c (nat i)) > limit) [1..n] = None"
    using assms(2)
    by (auto simp: first_escape_def split: option.splits dest!: find_Some_iff[THEN iffD1])
  have "[1..n + 1] = [1..n] @ [n + 1]"
    using assms(1) by (simp add: upto_rec2)
  then show ?thesis
    using none assms(3) by (simp add: first_escape_def find_append_None)
qed

lemma escape_at_index_200:
  assumes "c = 250252 / 1000000"
  shows "f c 0 200 1000000 = - 1 \<and> escape_time (Complex c 0) 200 1000000 = 200"
proof -
  have quarter: "1 / 4 \<le> c" and c0: "0 \<le> c"
    by (simp_all add: assms)
  have cm: "cmod (orbit (Complex c 0) n) = real_orbit c n" for n
    using real_orbit_nonneg[OF c0, of n] by (simp add: orbit_real cmod_def)
  have below: "cmod (orbit (Complex c 0) (nat i)) \<le> 1000000" if "1 \<le> i \<and> i \<le> 199" for i
  proof -
    have "nat i \<le> 199" using that by linarith
    then have "real_orbit c (nat i) \<le> real_orbit c 199"
      by (rule real_orbit_mono[OF quarter])
    also have "\<dots> \<le> 1000000"
      by (rule real_orbit_bounds(1)[OF assms])
    finally show ?thesis by (simp add: cm)
  qed
  have none: "first_escape (Complex c 0) 199 1000000 = - 1"
    by (rule first_escape_None) (use below in blast)
  have above: "cmod (orbit (Complex c 0) (nat (199 + 1))) > 1000000"
    using real_orbit_bounds(2)[OF assms] by (simp add: cm)
  have "first_escape (Complex c 0) (199 + 1) 1000000 = 199 + 1"
    using none above by (intro first_escape_last) simp_all
  then have "escape_time (Complex c 0) 200 1000000 = 200"
    by (simp add: escape_time_def)
  moreover have "f c 0 200 1000000 = - 1"
    using none by (simp add: f_first_escape)
  ultimately show ?thesis by simp
qed

text \<open>
  C1, as stated, at \<open>c = 0.250252\<close>: the orbit stays within the bound at the indices
  \<open>1, \<dots>, 199\<close> and first exceeds it at index \<open>200\<close>, which is within the maximum
  iteration count, yet \<open>f\<close> returns the sentinel.
\<close>

theorem f_index_200_counterexample:
  "f (250252 / 1000000) 0 200 1000000 = - 1 \<and>
   escape_time (Complex (250252 / 1000000) 0) 200 1000000 = 200"
  by (rule escape_at_index_200[OF refl])

text \<open>
  C1, amended. With the default parameters (\<open>max_iter = 200\<close>, \<open>limit = 1e6\<close>), \<open>f\<close>
  iterates \<open>z\<^sub>n\<^sub>+\<^sub>1 = z\<^sub>n\<^sup>2 + c\<close> from \<open>z = 0\<close> over the iteration indices
  \<open>1, \<dots>, max_iter - 1 = 199\<close> and returns the first of these indices at which \<open>|z|\<close>
  exceeds the bound, or \<open>-1\<close> if the bound is exceeded at none of them.
\<close>

theorem f_default_escape_time:
  "f re im 200 1000000 = first_escape (Complex re im) 199 1000000"
  using f_first_escape[of re im 200 1000000] by simp

text \<open>
  C5. \<open>f(0, 0)\<close> with the default parameters returns the sentinel \<open>-1\<close>; the origin is a
  fixed point of the quadratic map, so the orbit stays at \<open>0\<close>.
\<close>

theorem f_origin:
  "f 0 0 200 1000000 = - 1 \<and> (\<forall>n. orbit (Complex 0 0) n = 0)"
proof
  show "f 0 0 200 1000000 = - 1"
    by (rule f_zero)
  have "orbit 0 n = 0" for n
    by (induction n) simp_all
  then show "\<forall>n. orbit (Complex 0 0) n = 0"
    by (simp add: zero_complex.code[symmetric])
qed

text \<open>
  C6. \<open>f(10, 0)\<close> with the default parameters returns a positive index, not the
  sentinel, and the index is at most 10: it is 4.
\<close>

theorem f_far_outside:
  "f 10 0 200 1000000 = 4 \<and> 0 < f 10 0 200 1000000 \<and> f 10 0 200 1000000 \<le> 10"
  by (simp add: f_ten)

text \<open>
  C9. For every input and every \<open>max_iter \<ge> 1\<close>, \<open>f\<close> returns \<open>-1\<close> or an index \<open>i\<close> with
  \<open>1 \<le> i \<le> max_iter - 1\<close>; it never returns \<open>0\<close> or \<open>max_iter\<close>, and the loop body runs at
  most \<open>max_iter - 1\<close> times.
\<close>

theorem f_result_range:
  assumes "1 \<le> max_iter"
  shows "(f re im max_iter limit = - 1 \<or>
          (1 \<le> f re im max_iter limit \<and> f re im max_iter limit \<le> max_iter - 1))
       \<and> f re im max_iter limit \<noteq> 0
       \<and> f re im max_iter limit \<noteq> max_iter
       \<and> int (T_f re im max_iter limit) \<le> max_iter - 1"
proof -
  have r: "f re im max_iter limit = - 1 \<or>
          (1 \<le> f re im max_iter limit \<and> f re im max_iter limit \<le> max_iter - 1)"
    by (rule f_range_gen)
  have "T_f re im max_iter limit \<le> length [1..max_iter - 1]"
    unfolding T_f_def Let_def by (rule T_f_loop_le)
  then have t: "int (T_f re im max_iter limit) \<le> max_iter - 1"
    using assms by simp
  from r t assms show ?thesis by auto
qed

theorem f_result_range_witness:
  "(1::int) \<le> 5 \<and> f 10 0 5 1000000 = 4 \<and> T_f 10 0 5 1000000 = 4 \<and>
   1 \<le> f 10 0 5 1000000 \<and> f 10 0 5 1000000 \<le> 5 - 1 \<and>
   f 10 0 5 1000000 \<noteq> 0 \<and> f 10 0 5 1000000 \<noteq> 5 \<and>
   int (T_f 10 0 5 1000000) \<le> 5 - 1"
proof -
  have up: "[1..4::int] = [1, 2, 3, 4]"
    by (simp add: upto_rec1)
  have v: "f 10 0 5 1000000 = 4"
    using up by (simp add: f_def Let_def cmod_def)
  have t: "T_f 10 0 5 1000000 = 4"
    using up by (simp add: T_f_def Let_def cmod_def)
  have pos: "(1::int) \<le> 5" by simp
  from f_result_range[OF pos, of 10 0 1000000] v t show ?thesis by simp
qed

subsection \<open>The height grid\<close>

lemma square_shape_iff:
  "square_shape n grid \<longleftrightarrow> length grid = n \<and> (\<forall>k<n. length (grid ! k) = n)"
  by (auto simp: square_shape_def list_eq_iff_nth_eq)

lemma square_shape_zeros2: "square_shape n (zeros2 n n)"
  by (simp add: square_shape_iff zeros2_def)

lemma square_shape_cell_update:
  "square_shape n grid \<Longrightarrow> square_shape n (cell_update a b c d N i j grid)"
proof -
  assume sh: "square_shape n grid"
  have "length (grid[j := (grid ! j)[i := v]] ! k) = n" if "k < n" for k v
  proof (cases "k = j")
    case True
    then show ?thesis using sh that by (simp add: square_shape_iff)
  next
    case False
    then show ?thesis using sh that by (simp add: square_shape_iff)
  qed
  then show ?thesis
    using sh by (simp add: square_shape_iff cell_update_def Let_def split: prod.splits)
qed

lemma square_shape_inner:
  "square_shape n grid \<Longrightarrow> square_shape n (fold (\<lambda>j. cell_update a b c d N i j) js grid)"
  by (induction js arbitrary: grid) (simp_all add: square_shape_cell_update)

lemma square_shape_outer:
  "square_shape n grid \<Longrightarrow>
   square_shape n (fold (\<lambda>i. fold (\<lambda>j. cell_update a b c d N i j) js) is grid)"
  by (induction "is" arbitrary: grid) (simp_all add: square_shape_inner)

lemma cell_update_nth:
  assumes "square_shape n grid" "i < n" "j < n" "i' < n" "j' < n"
  shows "cell_update a b c d N i j grid ! j' ! i' =
         (if j' = j \<and> i' = i then new_cell a b c d N i j (grid ! j' ! i') else grid ! j' ! i')"
  using assms
  by (auto simp: square_shape_iff cell_update_def new_cell_def Let_def nth_list_update
           split: prod.splits)

lemma inner_nth:
  assumes "square_shape n grid" "i < n" "\<forall>j\<in>set js. j < n" "distinct js" "i' < n" "j' < n"
  shows "fold (\<lambda>j. cell_update a b c d N i j) js grid ! j' ! i' =
         (if i' = i \<and> j' \<in> set js then new_cell a b c d N i j' (grid ! j' ! i') else grid ! j' ! i')"
  using assms
proof (induction js arbitrary: grid)
  case Nil
  then show ?case by simp
next
  case (Cons j js)
  have sh: "square_shape n (cell_update a b c d N i j grid)"
    using Cons.prems(1) by (rule square_shape_cell_update)
  have jn: "j < n" using Cons.prems(3) by simp
  have IH: "fold (\<lambda>j. cell_update a b c d N i j) js (cell_update a b c d N i j grid) ! j' ! i' =
         (if i' = i \<and> j' \<in> set js
          then new_cell a b c d N i j' (cell_update a b c d N i j grid ! j' ! i')
          else cell_update a b c d N i j grid ! j' ! i')"
    using Cons.IH[OF sh Cons.prems(2)] Cons.prems by simp
  have cu: "cell_update a b c d N i j grid ! j' ! i' =
         (if j' = j \<and> i' = i then new_cell a b c d N i j (grid ! j' ! i') else grid ! j' ! i')"
    using cell_update_nth[OF Cons.prems(1,2) jn Cons.prems(5,6)] .
  show ?case
    using IH cu Cons.prems(4) by auto
qed

lemma outer_nth:
  assumes "square_shape n grid" "\<forall>i\<in>set is. i < n" "distinct is" "i' < n" "j' < n"
  shows "fold (\<lambda>i. fold (\<lambda>j. cell_update a b c d N i j) [0..<n]) is grid ! j' ! i' =
         (if i' \<in> set is then new_cell a b c d N i' j' (grid ! j' ! i') else grid ! j' ! i')"
  using assms
proof (induction "is" arbitrary: grid)
  case Nil
  then show ?case by simp
next
  case (Cons i "is")
  let ?h1 = "fold (\<lambda>j. cell_update a b c d N i j) [0..<n] grid"
  have sh: "square_shape n ?h1"
    using Cons.prems(1) by (rule square_shape_inner)
  have i_n: "i < n" using Cons.prems(2) by simp
  have IH: "fold (\<lambda>i. fold (\<lambda>j. cell_update a b c d N i j) [0..<n]) is ?h1 ! j' ! i' =
         (if i' \<in> set is then new_cell a b c d N i' j' (?h1 ! j' ! i') else ?h1 ! j' ! i')"
    using Cons.IH[OF sh] Cons.prems by simp
  have inner: "?h1 ! j' ! i' =
         (if i' = i \<and> j' \<in> set [0..<n] then new_cell a b c d N i j' (grid ! j' ! i')
          else grid ! j' ! i')"
    using inner_nth[OF Cons.prems(1) i_n _ _ Cons.prems(4,5), of "[0..<n]"] by simp
  show ?case
    using IH inner Cons.prems(3,5) by auto
qed

lemma calc_heights_cell:
  assumes "0 \<le> N" "i < nat N" "j < nat N"
  shows "\<exists>grid. calc_heights a b c d N = Inr grid \<and> square_shape (nat N) grid \<and>
             grid ! j ! i = cell_value a b c d N i j"
proof -
  let ?grid = "fold (\<lambda>i. fold (\<lambda>j. cell_update a b c d N i j) [0..<nat N])
                  [0..<nat N] (zeros2 (nat N) (nat N))"
  have r: "calc_heights a b c d N = Inr ?grid"
    using assms(1) by (simp add: calc_heights_def)
  have sh: "square_shape (nat N) ?grid"
    by (rule square_shape_outer) (rule square_shape_zeros2)
  have "?grid ! j ! i = new_cell a b c d N i j (zeros2 (nat N) (nat N) ! j ! i)"
    using outer_nth[OF square_shape_zeros2 _ _ assms(2,3), of "[0..<nat N]"] assms(2) by simp
  also have "\<dots> = cell_value a b c d N i j"
    using assms(2,3) by (simp add: new_cell_def cell_value_def zeros2_def)
  finally show ?thesis using r sh by blast
qed


lemma cell_value_cases:
  "(cell_value a b c d N i j = 0 \<and>
    f (fst (sampled_point a b c d N i j)) (snd (sampled_point a b c d N i j)) 200 1000000 = - 1)
   \<or> (\<exists>k. 1 \<le> k \<and> k \<le> 199 \<and> cell_value a b c d N i j = real_of_int k \<and>
    f (fst (sampled_point a b c d N i j)) (snd (sampled_point a b c d N i j)) 200 1000000 = k)"
  using f_range_gen[of "fst (sampled_point a b c d N i j)" "snd (sampled_point a b c d N i j)"
      200 1000000]
  by (auto simp: cell_value_def Let_def)

lemma calc_heights_Inr:
  "0 \<le> N \<Longrightarrow> \<exists>grid. calc_heights a b c d N = Inr grid \<and> square_shape (nat N) grid"
  by (simp add: calc_heights_def square_shape_outer square_shape_zeros2)

lemma calc_heights_nth:
  assumes "calc_heights a b c d N = Inr grid" "i < nat N" "j < nat N"
  shows "grid ! j ! i = cell_value a b c d N i j"
proof -
  have "0 \<le> N" using assms(2) by simp
  from calc_heights_cell[OF this assms(2,3), of a b c d] assms(1) show ?thesis by auto
qed

lemma upt_2: "[0..<2::nat] = [0, 1]"
  by (simp add: upt_rec)

lemma zeros2_2: "zeros2 2 2 = [[0, 0], [0, 0]]"
  by (simp add: zeros2_def numeral_2_eq_2)

lemma zeros2_1: "zeros2 (Suc 0) (Suc 0) = [[0]]"
  by (simp add: zeros2_def)



lemma round_to_even_of_int: "round_to_even (real_of_int m) = m"
  by (simp add: round_to_even_def)

lemma round64_of_int:
  assumes "\<bar>n\<bar> < 2 ^ 53"
  shows "round64 (real_of_int n) = real_of_int n"
proof (cases "n = 0")
  case True
  then show ?thesis by (simp add: round64_def)
next
  case False
  define x where "x = \<bar>real_of_int n\<bar>"
  define k where "k = \<lfloor>log 2 x\<rfloor>"
  have x1: "1 \<le> x" using False by (simp add: x_def)
  have x53: "x < 2 ^ 53"
  proof -
    have "real_of_int \<bar>n\<bar> < real_of_int (2 ^ 53)"
      using assms by (simp only: of_int_less_iff)
    then show ?thesis by (simp add: x_def)
  qed
  have k0: "0 \<le> k"
    using x1 by (simp add: k_def)
  have "log 2 x < 53"
  proof -
    have l: "log 2 ((2::real) ^ 53) = 53"
      by (subst log_nat_power) simp_all
    have "log 2 x < log 2 (2 ^ 53)"
      using x1 x53 by (subst log_less_cancel_iff) simp_all
    then show ?thesis unfolding l .
  qed
  then have k52: "k \<le> 52"
    unfolding k_def by linarith
  have q: "quantum_exp (real_of_int n) = k - 52"
    using k0 by (simp add: quantum_exp_def k_def x_def)
  define m where "m = nat (52 - k)"
  have p: "(2::real) powi (k - 52) = 1 / 2 ^ m"
    using k52 by (simp add: power_int_def m_def field_simps)
  have "real_of_int n / 2 powi (k - 52) = real_of_int (n * 2 ^ m)"
    by (simp add: p)
  then have "round_to_even (real_of_int n / 2 powi (k - 52)) = n * 2 ^ m"
    by (simp only: round_to_even_of_int)
  then show ?thesis
    using False by (simp add: round64_def q p)
qed

lemma round64_numeral:
  "numeral k < (2::int) ^ 53 \<Longrightarrow> round64 (numeral k) = numeral k"
  using round64_of_int[of "numeral k"] by simp

lemma round64_0_1: "round64 0 = 0" "round64 1 = 1"
  using round64_of_int[of 0] round64_of_int[of 1] by simp_all

lemmas num64_ops =
  sampled_point_def num_add_def num_truediv_def num_mul_def num_sub_def to_float_def
  round64_numeral round64_0_1

lemma calc_heights_example:
  "calc_heights (IntV 0) (IntV 20) (IntV 0) (IntV 0) 2 = Inr [[0, 4], [0, 4]]"
  by (simp add: calc_heights_def upt_2 cell_update_def num64_ops zeros2_2 f_zero f_ten)

lemma f_one: "f 1 0 200 1000000 = 7"
proof -
  have "[1..199::int] = 1 # 2 # 3 # 4 # 5 # 6 # 7 # [8..199]"
    by (simp add: upto_rec1)
  then show ?thesis
    by (simp add: f_def Let_def cmod_def)
qed








text \<open>
  C3. For all plotting limits and every positive resolution \<open>N\<close>, every cell of the grid
  returned by \<open>calc_heights\<close> holds either a positive iteration count, which is then the
  result of \<open>f\<close> at the sampled point, or the sentinel \<open>0\<close>, which it holds exactly when
  \<open>f\<close> returned \<open>-1\<close> there; no cell holds any other value.
\<close>

theorem calc_heights_cells:
  assumes "0 < N"
  shows "\<exists>grid. calc_heights a b c d N = Inr grid \<and>
           (\<forall>row\<in>set grid. \<forall>v\<in>set row.
              v = 0 \<or> (\<exists>k. 1 \<le> k \<and> k \<le> 199 \<and> v = real_of_int k)) \<and>
           (\<forall>j<nat N. \<forall>i<nat N.
              (grid ! j ! i = 0 \<longleftrightarrow>
               f (fst (sampled_point a b c d N i j)) (snd (sampled_point a b c d N i j))
                 200 1000000 = - 1))"
proof -
  from assms obtain grid where
    grid: "calc_heights a b c d N = Inr grid" and sh: "square_shape (nat N) grid"
    using calc_heights_Inr[of N a b c d] by auto
  have cells: "v = 0 \<or> (\<exists>k. 1 \<le> k \<and> k \<le> 199 \<and> v = real_of_int k)"
    if "row \<in> set grid" "v \<in> set row" for row v
  proof -
    from that(1) sh obtain j where j: "j < nat N" "row = grid ! j"
      by (auto simp: in_set_conv_nth square_shape_iff)
    from that(2) j sh obtain i where i: "i < nat N" "v = row ! i"
      by (auto simp: in_set_conv_nth square_shape_iff)
    have "v = cell_value a b c d N i j"
      using calc_heights_nth[OF grid i(1) j(1)] i(2) j(2) by simp
    then show ?thesis
      using cell_value_cases[of a b c d N i j] by auto
  qed
  have meaning: "grid ! j ! i = 0 \<longleftrightarrow>
      f (fst (sampled_point a b c d N i j)) (snd (sampled_point a b c d N i j))
        200 1000000 = - 1"
    if "j < nat N" "i < nat N" for i j
    using calc_heights_nth[OF grid that(2) that(1)] cell_value_cases[of a b c d N i j]
    by auto
  from grid cells meaning show ?thesis by blast
qed

theorem calc_heights_cells_witness:
  "(0::int) < 2 \<and> calc_heights (IntV 0) (IntV 20) (IntV 0) (IntV 0) 2 = Inr [[0, 4], [0, 4]] \<and>
   [0, 4] \<in> set [[0, 4], [0, 4::real]] \<and> (4::real) \<in> set [0, 4] \<and>
   ((4::real) = 0 \<or> (\<exists>k::int. 1 \<le> k \<and> k \<le> 199 \<and> (4::real) = real_of_int k))"
proof -
  have pos: "(0::int) < 2" by simp
  from calc_heights_cells[OF pos, of "IntV 0" "IntV 20" "IntV 0" "IntV 0"] calc_heights_example
  have "\<forall>row\<in>set [[0, 4], [0, 4::real]]. \<forall>v\<in>set row.
          v = 0 \<or> (\<exists>k::int. 1 \<le> k \<and> k \<le> 199 \<and> v = real_of_int k)"
    by simp
  then have "(4::real) = 0 \<or> (\<exists>k::int. 1 \<le> k \<and> k \<le> 199 \<and> (4::real) = real_of_int k)"
    by simp
  with calc_heights_example show ?thesis by simp
qed

text \<open>
  C7. For every positive resolution \<open>N\<close>, the grid computed by \<open>calc_heights\<close> is an
  \<open>N\<close>-by-\<open>N\<close> array: it has \<open>N\<close> rows and every row has \<open>N\<close> cells.
\<close>

theorem calc_heights_shape:
  assumes "0 < N"
  shows "\<exists>grid. calc_heights a b c d N = Inr grid \<and> length grid = nat N \<and>
           (\<forall>row\<in>set grid. length row = nat N)"
proof -
  from assms obtain grid where
    grid: "calc_heights a b c d N = Inr grid" and sh: "square_shape (nat N) grid"
    using calc_heights_Inr[of N a b c d] by auto
  from sh have "length grid = nat N" "\<forall>row\<in>set grid. length row = nat N"
    by (auto simp: in_set_conv_nth square_shape_iff)
  with grid show ?thesis by blast
qed

theorem calc_heights_shape_witness:
  "(0::int) < 2 \<and> calc_heights (IntV 0) (IntV 20) (IntV 0) (IntV 0) 2 = Inr [[0, 4], [0, 4]] \<and>
   length [[0, 4], [0, 4::real]] = nat 2 \<and> length [0, 4::real] = nat 2"
proof -
  have pos: "(0::int) < 2" by simp
  from calc_heights_shape[OF pos, of "IntV 0" "IntV 20" "IntV 0" "IntV 0"] calc_heights_example
  have "length [[0, 4], [0, 4::real]] = nat 2 \<and>
        (\<forall>row\<in>set [[0, 4], [0, 4::real]]. length row = nat 2)"
    by simp
  with calc_heights_example show ?thesis by simp
qed




section \<open>Properties of double_pendulum.py\<close>

lemma bind_err_Inr [simp]: "bind_err (Inr x) k = k x"
  by (simp add: bind_err_def)

lemma bind_err_Inl [simp]: "bind_err (Inl e) k = Inl e"
  by (simp add: bind_err_def)

lemma py_div_Inr: "y \<noteq> 0 \<Longrightarrow> py_div x y = Inr (x / y)"
  by (simp add: py_div_def)

lemma mass_term_pos: "0 < m1 + m2 * (sin x)\<^sup>2"
proof -
  have "0 \<le> m2 * (sin x)\<^sup>2" by (simp add: m2_def)
  moreover have "0 < m1" by (simp add: m1_def)
  ultimately show ?thesis by linarith
qed

lemma slope_denominators:
  "l1 * l2 * (m1 + m2 * (sin x)\<^sup>2) \<noteq> 0"
  "2 * l1\<^sup>2 * l2\<^sup>2 * (m1 + m2 * (sin x)\<^sup>2)\<^sup>2 \<noteq> 0"
  "l1\<^sup>2 * l2 * (m1 + m2 * (sin x)\<^sup>2) \<noteq> 0"
  "m2 * l1 * l2\<^sup>2 * (m1 + m2 * (sin x)\<^sup>2) \<noteq> 0"
  using mass_term_pos[of x] by (simp_all add: l1_def l2_def m2_def)

lemma slope_total: "\<exists>v. slope y = Inr v"
  unfolding slope_def Let_def
    py_div_Inr[OF slope_denominators(1)] py_div_Inr[OF slope_denominators(2)]
    py_div_Inr[OF slope_denominators(3)] py_div_Inr[OF slope_denominators(4)]
    bind_err_Inr
  by blast

lemma RK4_body_slope:
  "\<exists>s1 s2 s3 s4 k1 k2 k3 k4.
     slope y = Inr s1 \<and> k1 = smult4 h s1 \<and>
     slope (add4 y (smult4 (1 / 2) k1)) = Inr s2 \<and> k2 = smult4 h s2 \<and>
     slope (add4 y (smult4 (1 / 2) k2)) = Inr s3 \<and> k3 = smult4 h s3 \<and>
     slope (add4 y k3) = Inr s4 \<and> k4 = smult4 h s4 \<and>
     RK4_body slope h y =
       Inr (add4 y (smult4 (1 / 6) (add4 (add4 (add4 k1 (smult4 2 k2)) (smult4 2 k3)) k4)))"
proof -
  obtain s1 where s1: "slope y = Inr s1"
    using slope_total by blast
  obtain s2 where s2: "slope (add4 y (smult4 (1 / 2) (smult4 h s1))) = Inr s2"
    using slope_total by blast
  obtain s3 where s3: "slope (add4 y (smult4 (1 / 2) (smult4 h s2))) = Inr s3"
    using slope_total by blast
  obtain s4 where s4: "slope (add4 y (smult4 h s3)) = Inr s4"
    using slope_total by blast
  have "RK4_body slope h y =
       Inr (add4 y (smult4 (1 / 6)
         (add4 (add4 (add4 (smult4 h s1) (smult4 2 (smult4 h s2))) (smult4 2 (smult4 h s3)))
            (smult4 h s4))))"
    using s1 s2 s3 s4 by (simp add: RK4_body_def Let_def)
  with s1 s2 s3 s4 show ?thesis by blast
qed

lemma RK4_body_total: "\<exists>y'. RK4_body slope h y = Inr y'"
  using RK4_body_slope[of y] by blast

lemma RK4_loop_total: "\<exists>r. RK4_loop slope h y k = Inr r"
proof (induction k arbitrary: y)
  case 0
  show ?case by simp
next
  case (Suc k)
  obtain y' where "RK4_body slope h y = Inr y'"
    using RK4_body_total by blast
  then show ?case using Suc[of y'] by simp
qed

lemma RK4_one: "RK4 y 1 = RK4_body slope h y"
proof -
  obtain y' where "RK4_body slope h y = Inr y'"
    using RK4_body_total by blast
  then show ?thesis by (simp add: RK4_def RK4_with_def)
qed

lemma RK4_Suc: "RK4 y (int (Suc n)) = bind_err (RK4 y 1) (\<lambda>y'. RK4 y' (int n))"
proof -
  have "RK4 y (int (Suc n)) = RK4_loop slope h y (Suc n)"
    by (simp only: RK4_def RK4_with_def nat_int)
  also have "\<dots> = bind_err (RK4_body slope h y) (\<lambda>y'. RK4_loop slope h y' n)"
    by simp
  also have "\<dots> = bind_err (RK4 y 1) (\<lambda>y'. RK4 y' (int n))"
    by (simp only: RK4_one) (simp only: RK4_def RK4_with_def nat_int)
  finally show ?thesis .
qed

lemma add4_zero: "add4 y (Vec4 0 0 0 0) = y"
  by (cases y) (simp add: add4_def)

lemma smult4_zero: "smult4 k (Vec4 0 0 0 0) = Vec4 0 0 0 0"
  by (simp add: smult4_def)

lemma add4_zero_zero: "add4 (Vec4 0 0 0 0) (Vec4 0 0 0 0) = Vec4 0 0 0 0"
  by (simp add: add4_def)

lemma RK4_body_zero: "RK4_body (\<lambda>u. Inr (Vec4 0 0 0 0)) step y = Inr y"
  by (simp add: RK4_body_def Let_def smult4_zero add4_zero add4_zero_zero)

lemma RK4_loop_zero: "RK4_loop (\<lambda>u. Inr (Vec4 0 0 0 0)) step y k = Inr y"
  by (induction k) (simp_all add: RK4_body_zero)

text \<open>
  C2. Each single integration step of \<open>RK4\<close> evaluates \<open>slope\<close> four times, at \<open>y\<close>,
  \<open>y + k1/2\<close>, \<open>y + k2/2\<close> and \<open>y + k3\<close>, with \<open>k\<^sub>i\<close> the time increment \<open>h\<close> times the
  respective slope, and yields \<open>y + (1/6)*(k1 + 2*k2 + 2*k3 + k4)\<close>; further steps repeat
  this on the result. \<open>RK4\<close> is a function of the input state and raises no error for
  any state and any number of steps.
\<close>

theorem RK4_step:
  "(\<exists>s1 s2 s3 s4 k1 k2 k3 k4.
     slope y = Inr s1 \<and> k1 = smult4 h s1 \<and>
     slope (add4 y (smult4 (1 / 2) k1)) = Inr s2 \<and> k2 = smult4 h s2 \<and>
     slope (add4 y (smult4 (1 / 2) k2)) = Inr s3 \<and> k3 = smult4 h s3 \<and>
     slope (add4 y k3) = Inr s4 \<and> k4 = smult4 h s4 \<and>
     RK4 y 1 =
       Inr (add4 y (smult4 (1 / 6) (add4 (add4 (add4 k1 (smult4 2 k2)) (smult4 2 k3)) k4))))
   \<and> RK4 y (int (Suc n)) = bind_err (RK4 y 1) (\<lambda>y'. RK4 y' (int n))
   \<and> (\<exists>r. RK4 y steps = Inr r)"
proof (intro conjI)
  show "\<exists>s1 s2 s3 s4 k1 k2 k3 k4.
     slope y = Inr s1 \<and> k1 = smult4 h s1 \<and>
     slope (add4 y (smult4 (1 / 2) k1)) = Inr s2 \<and> k2 = smult4 h s2 \<and>
     slope (add4 y (smult4 (1 / 2) k2)) = Inr s3 \<and> k3 = smult4 h s3 \<and>
     slope (add4 y k3) = Inr s4 \<and> k4 = smult4 h s4 \<and>
     RK4 y 1 =
       Inr (add4 y (smult4 (1 / 6) (add4 (add4 (add4 k1 (smult4 2 k2)) (smult4 2 k3)) k4)))"
    unfolding RK4_one by (rule RK4_body_slope)
  show "RK4 y (int (Suc n)) = bind_err (RK4 y 1) (\<lambda>y'. RK4 y' (int n))"
    by (rule RK4_Suc)
  show "\<exists>r. RK4 y steps = Inr r"
    unfolding RK4_def RK4_with_def by (rule RK4_loop_total)
qed

text \<open>
  C4. For every state vector \<open>y\<close>, every time increment and every number of steps, the
  RK4 integrator applied with a derivative function that is identically zero returns
  \<open>y\<close> unchanged.
\<close>

theorem RK4_zero_slope:
  "RK4_with (\<lambda>u. Inr (Vec4 0 0 0 0)) step y n = Inr y"
  by (simp add: RK4_with_def RK4_loop_zero)

section \<open>Properties of lorenz.py\<close>


lemma length_vec_ops [simp]:
  "length (smult k v) = length v"
  "length (sdiv v k) = length v"
  "length (vadd u v) = min (length u) (length v)"
  "length (f_lorenz t u) = 3"
  "length (get_col arr i) = length arr"
  by (simp_all add: smult_def sdiv_def vadd_def f_lorenz_def get_col_def)


lemma set_col_other [simp]:
  "y_writes (set_col s i v) = y_writes s @ [i]"
  "t_lorenz (set_col s i v) = t_lorenz s"
  by (simp_all add: set_col_def)





end
